theory Spec2Isabelle
  imports Complex_Main "HOL-Library.Finite_Map" "HOL-Library.Sublist"
begin

section \<open>Data model\<close>

text \<open>
  The plugin is Python. A Python \<open>str\<close> is a sequence of Unicode code points, modelled as
  a list of natural numbers; \<open>u\<close> turns an ASCII literal into such a list.
  \<open>time.time()\<close> returns a float; the clock readings are parameters of the model and are
  exact real numbers (the rounding of float addition is not modelled).
  Durations, the capacity and the sensitivity are Python integers (\<open>int\<close>).
\<close>

type_synonym pystr = "nat list"

definition u :: "string \<Rightarrow> pystr" where
  "u s = map of_char s"

text \<open>Python's \<open>int(x)\<close> on a float: truncation towards zero.\<close>

definition py_int :: "real \<Rightarrow> int" where
  "py_int x = (if 0 \<le> x then \<lfloor>x\<rfloor> else \<lceil>x\<rceil>)"

text \<open>
  \<open>StateManager\<close>: two dictionaries from state key to end timestamp, and the capacity.
  A dictionary is a finite map. The lock is not modelled: every method below is one
  critical section, taken as one atomic step.
\<close>

record state_manager =
  active_states :: "(pystr, real) fmap"
  cooldowns :: "(pystr, real) fmap"
  max_concurrent_states :: int

definition init_state_manager :: "int \<Rightarrow> state_manager" where
  "init_state_manager m =
     \<lparr>active_states = fmempty, cooldowns = fmempty, max_concurrent_states = m\<rparr>"

text \<open>
  The result messages of \<open>activate_state\<close> are f-strings around one integer; the
  constructor names the message and carries the integer:
  \<open>CoolingDown r\<close> (cooling down, wait \<open>r\<close> seconds),
  \<open>AlreadyActive r\<close> (already in the controlled state, \<open>r\<close> seconds left),
  \<open>CapacityReached\<close> (the concurrent states have reached the limit),
  \<open>Activated d\<close> (control mode activated for \<open>d\<close> seconds).
\<close>

datatype activate_msg =
  CoolingDown int
  | AlreadyActive int
  | CapacityReached
  | Activated int

section \<open>The state registry\<close>

text \<open>\<open>f"{platform}_{session_id}" if platform else session_id\<close>\<close>

definition generate_state_key :: "pystr \<Rightarrow> pystr \<Rightarrow> pystr" where
  "generate_state_key session_id platform =
     (if platform \<noteq> [] then platform @ u ''_'' @ session_id else session_id)"

text \<open>
  \<open>_cleanup_expired_states\<close>: collect the keys whose end time is at or before the clock
  reading, delete them; first in \<open>active_states\<close>, then in \<open>cooldowns\<close>.
\<close>

definition expired_keys :: "(pystr, real) fmap \<Rightarrow> real \<Rightarrow> pystr fset" where
  "expired_keys m current_time =
     ffilter (\<lambda>key. case fmlookup m key of
                       Some end_time \<Rightarrow> current_time \<ge> end_time
                     | None \<Rightarrow> False) (fmdom m)"

definition cleanup_expired_states :: "state_manager \<Rightarrow> real \<Rightarrow> state_manager" where
  "cleanup_expired_states s current_time =
     s\<lparr>active_states :=
         fmdrop_fset (expired_keys (active_states s) current_time) (active_states s),
       cooldowns :=
         fmdrop_fset (expired_keys (cooldowns s) current_time) (cooldowns s)\<rparr>"

text \<open>
  \<open>activate_state\<close>. The method reads the clock once itself (\<open>current_time\<close>) and
  \<open>_cleanup_expired_states\<close> reads it again (\<open>cleanup_time\<close>); both readings are
  parameters. The result is the returned pair and the state the method leaves behind.
\<close>

definition activate_state ::
  "state_manager \<Rightarrow> pystr \<Rightarrow> pystr \<Rightarrow> int \<Rightarrow> int \<Rightarrow> real \<Rightarrow> real
     \<Rightarrow> (bool \<times> activate_msg) \<times> state_manager" where
  "activate_state s session_id platform duration_seconds cooldown_seconds
       current_time cleanup_time =
     (let state_key = generate_state_key session_id platform in
      case (case fmlookup (cooldowns s) state_key of
              Some cooldown_end \<Rightarrow>
                if current_time < cooldown_end
                then Some (py_int (cooldown_end - current_time)) else None
            | None \<Rightarrow> None) of
        Some remaining \<Rightarrow> ((False, CoolingDown remaining), s)
      | None \<Rightarrow>
         (case (case fmlookup (active_states s) state_key of
                  Some end_time \<Rightarrow>
                    if current_time < end_time
                    then Some (py_int (end_time - current_time)) else None
                | None \<Rightarrow> None) of
            Some remaining \<Rightarrow> ((False, AlreadyActive remaining), s)
          | None \<Rightarrow>
             (let s1 = s\<lparr>active_states := fmdrop state_key (active_states s)\<rparr>;
                  s2 = cleanup_expired_states s1 cleanup_time
              in if int (fcard (fmdom (active_states s2))) \<ge> max_concurrent_states s2
                 then ((False, CapacityReached), s2)
                 else ((True, Activated duration_seconds),
                       s2\<lparr>active_states :=
                            fmupd state_key (current_time + real_of_int duration_seconds)
                              (active_states s2),
                          cooldowns :=
                            fmupd state_key (current_time + real_of_int cooldown_seconds)
                              (cooldowns s2)\<rparr>))))"

text \<open>\<open>is_state_active\<close>: an expired entry is deleted on the access.\<close>

definition is_state_active ::
  "state_manager \<Rightarrow> pystr \<Rightarrow> pystr \<Rightarrow> real \<Rightarrow> bool \<times> state_manager" where
  "is_state_active s session_id platform current_time =
     (let state_key = generate_state_key session_id platform in
      case fmlookup (active_states s) state_key of
        None \<Rightarrow> (False, s)
      | Some end_time \<Rightarrow>
          if current_time \<ge> end_time
          then (False, s\<lparr>active_states := fmdrop state_key (active_states s)\<rparr>)
          else (True, s))"

text \<open>\<open>get_remaining_time\<close>: reads only.\<close>

definition get_remaining_time :: "state_manager \<Rightarrow> pystr \<Rightarrow> pystr \<Rightarrow> real \<Rightarrow> int" where
  "get_remaining_time s session_id platform current_time =
     (let state_key = generate_state_key session_id platform in
      case fmlookup (active_states s) state_key of
        None \<Rightarrow> 0
      | Some end_time \<Rightarrow> max 0 (py_int (end_time - current_time)))"

text \<open>\<open>deactivate_state\<close>\<close>

definition deactivate_state ::
  "state_manager \<Rightarrow> pystr \<Rightarrow> pystr \<Rightarrow> bool \<times> state_manager" where
  "deactivate_state s session_id platform =
     (let state_key = generate_state_key session_id platform in
      if state_key |\<in>| fmdom (active_states s)
      then (True, s\<lparr>active_states := fmdrop state_key (active_states s)\<rparr>)
      else (False, s))"

text \<open>
  \<open>get_active_states_info\<close>: cleans up (second clock reading), then reports for every
  remaining key the whole seconds left with respect to the first reading. The ISO
  rendering of the end time is left out; the end time itself is reported.
\<close>

definition get_active_states_info ::
  "state_manager \<Rightarrow> real \<Rightarrow> real \<Rightarrow> (pystr, int \<times> real) fmap \<times> state_manager" where
  "get_active_states_info s current_time cleanup_time =
     (let s1 = cleanup_expired_states s cleanup_time
      in (fmmap (\<lambda>end_time. (py_int (end_time - current_time), end_time)) (active_states s1),
          s1))"

section \<open>The trigger evaluator\<close>

text \<open>
  The configuration is a YAML dictionary read afresh at each decision; it is modelled as
  a record whose fields have the types the plugin expects, so the \<open>except\<close> branches
  that only a wrongly typed value can reach are not modelled. An attribute that
  \<open>getattr\<close> does not find takes its default (\<open>False\<close>, the empty string).
\<close>

record config =
  enabled :: bool
  trigger_keywords :: "pystr list"
  interactive_item_name :: pystr
  state_duration_seconds :: int
  sensitivity_level :: int
  cooldown_seconds :: int
  authorized_users :: "pystr list"
  admin_only_mode :: bool
  system_prompt_template :: pystr

record event =
  is_at_or_wake_command :: bool
  sender_id :: pystr
  user_id :: pystr
  message_str :: pystr
  unified_msg_origin :: pystr
  get_platform_name :: pystr

text \<open>
  The reasons returned by \<open>should_trigger\<close>: plugin not initialised, plugin not enabled,
  message not addressed to the bot, user without permission, empty message content,
  matched keyword (with the keyword), no trigger keyword matched.
\<close>

datatype trigger_reason =
  NotInitialised
  | NotEnabled
  | NotAddressed
  | NoPermission
  | EmptyMessage
  | MatchedKeyword pystr
  | NoKeywordMatched

text \<open>
  Two built-ins of Python depend on the Unicode tables and are parameters of the model:
  \<open>isspace\<close>, the code points that \<open>str.strip()\<close> removes and the regex class \<open>\s\<close>
  matches, and \<open>lower\<close>, the function \<open>str.lower()\<close>. Their restrictions to ASCII are
  \<open>ascii_isspace\<close> and \<open>ascii_lower\<close>.
\<close>

definition ascii_isspace :: "nat \<Rightarrow> bool" where
  "ascii_isspace c \<longleftrightarrow> (9 \<le> c \<and> c \<le> 13) \<or> (28 \<le> c \<and> c \<le> 32)"

definition ascii_lower :: "pystr \<Rightarrow> pystr" where
  "ascii_lower s = map (\<lambda>c. if 65 \<le> c \<and> c \<le> 90 then c + 32 else c) s"

text \<open>\<open>s.strip()\<close>\<close>

definition py_strip :: "(nat \<Rightarrow> bool) \<Rightarrow> pystr \<Rightarrow> pystr" where
  "py_strip isspace s = rev (dropWhile isspace (rev (dropWhile isspace s)))"

text \<open>\<open>needle in haystack\<close> on strings: some suffix of the haystack starts with the needle.\<close>

fun py_in :: "pystr \<Rightarrow> pystr \<Rightarrow> bool" where
  "py_in needle [] = (needle = [])"
| "py_in needle (c # cs) = (prefix needle (c # cs) \<or> py_in needle cs)"

text \<open>
  \<open>re.sub(r"@[^\s]*", "", message)\<close>: every \<open>@\<close> is deleted together with the longest run
  of non-whitespace that follows it.
\<close>

function sub_at_token :: "(nat \<Rightarrow> bool) \<Rightarrow> pystr \<Rightarrow> pystr" where
  "sub_at_token isspace [] = []"
| "sub_at_token isspace (c # cs) =
     (if c = of_char CHR ''@''
      then sub_at_token isspace (dropWhile (\<lambda>x. \<not> isspace x) cs)
      else c # sub_at_token isspace cs)"
  by pat_completeness auto
termination
  by (relation "measure (\<lambda>(isspace, s). length s)")
     (auto simp: less_Suc_eq_le length_dropWhile_le)

text \<open>
  \<open>re.sub(r"\[CQ:at[^\]]*\]", "", cleaned)\<close>: where the text \<open>[CQ:at\<close> is followed, at any
  distance, by a \<open>]\<close>, everything up to and including the first such \<open>]\<close> is deleted.
\<close>

function sub_cq_at :: "pystr \<Rightarrow> pystr" where
  "sub_cq_at [] = []"
| "sub_cq_at (c # cs) =
     (if prefix (u ''[CQ:at'') (c # cs) \<and> of_char CHR '']'' \<in> set (drop 6 (c # cs))
      then sub_cq_at (tl (dropWhile (\<lambda>x. x \<noteq> of_char CHR '']'') (drop 6 (c # cs))))
      else c # sub_cq_at cs)"
  by pat_completeness auto
termination
proof (relation "measure length")
  fix c :: nat and cs :: pystr
  have "length (tl (dropWhile (\<lambda>x. x \<noteq> of_char CHR '']'') (drop 6 (c # cs))))
          \<le> length (drop 6 (c # cs))"
    using length_dropWhile_le[of "\<lambda>x. x \<noteq> of_char CHR '']''" "drop 6 (c # cs)"] by simp
  then show "(tl (dropWhile (\<lambda>x. x \<noteq> of_char CHR '']'') (drop 6 (c # cs))), c # cs)
               \<in> measure length"
    by simp
qed simp_all

text \<open>\<open>_clean_message_content\<close>\<close>

definition clean_message_content :: "(nat \<Rightarrow> bool) \<Rightarrow> pystr \<Rightarrow> pystr" where
  "clean_message_content isspace message =
     py_strip isspace (sub_cq_at (sub_at_token isspace message))"

text \<open>\<open>_check_user_permission\<close>\<close>

definition check_user_permission :: "pystr \<Rightarrow> config \<Rightarrow> bool" where
  "check_user_permission uid cfg =
     (if admin_only_mode cfg then True
      else if authorized_users cfg = [] then True
      else uid \<in> set (authorized_users cfg))"

text \<open>The loop of \<open>should_trigger\<close> over the trigger keywords, in their configured order.\<close>

fun match_keywords :: "(pystr \<Rightarrow> pystr) \<Rightarrow> pystr list \<Rightarrow> pystr \<Rightarrow> bool \<times> trigger_reason" where
  "match_keywords lower [] cleaned_message = (False, NoKeywordMatched)"
| "match_keywords lower (keyword # rest) cleaned_message =
     (if py_in (lower keyword) (lower cleaned_message)
      then (True, MatchedKeyword keyword)
      else match_keywords lower rest cleaned_message)"

text \<open>
  \<open>should_trigger\<close>; \<open>is_loaded\<close> stands for the test of \<open>self.is_loaded\<close> and of the two
  managers.
\<close>

definition should_trigger ::
  "(nat \<Rightarrow> bool) \<Rightarrow> (pystr \<Rightarrow> pystr) \<Rightarrow> bool \<Rightarrow> config \<Rightarrow> event \<Rightarrow> bool \<times> trigger_reason" where
  "should_trigger isspace lower is_loaded cfg ev =
     (if \<not> is_loaded then (False, NotInitialised)
      else if \<not> enabled cfg then (False, NotEnabled)
      else if \<not> is_at_or_wake_command ev then (False, NotAddressed)
      else
        (let uid = (if sender_id ev \<noteq> [] then sender_id ev else user_id ev) in
         if \<not> check_user_permission uid cfg then (False, NoPermission)
         else
           (let message_content = py_strip isspace (message_str ev) in
            if message_content = [] then (False, EmptyMessage)
            else
              (let cleaned_message = clean_message_content isspace message_content
               in match_keywords lower (trigger_keywords cfg) cleaned_message))))"

section \<open>The prompt injection\<close>




text \<open>
  \<open>prompt_template.format(item_name=item_name, sensitivity=sensitivity)\<close>. The built-in is
  modelled on the part of the format syntax that the plugin's templates use: literal
  text, the doubled braces, and replacement fields that are a bare name. The result is
  the rendered string, or \<open>Raises\<close> when \<open>str.format\<close> raises (a single brace, a field that
  is not closed, a brace inside a field name, a name that is empty, a number or not one of
  the two keyword arguments), or \<open>NotModelled\<close>
  at the first field that has a conversion, a format specification, an attribute or an
  index (\<open>!\<close>, \<open>:\<close>, \<open>.\<close>, \<open>[\<close>), which the model does not interpret. The fields are
  handled from left to right, as \<open>str.format\<close> does.
\<close>

datatype format_result = Rendered pystr | Raises | NotModelled

fun emit :: "pystr \<Rightarrow> format_result \<Rightarrow> format_result" where
  "emit s (Rendered r) = Rendered (s @ r)"
| "emit s Raises = Raises"
| "emit s NotModelled = NotModelled"

definition lbrace :: nat where
  "lbrace = of_char CHR ''{''"

definition rbrace :: nat where
  "rbrace = of_char CHR ''}''"

fun format_literal :: "pystr \<Rightarrow> pystr \<Rightarrow> pystr \<Rightarrow> format_result"
  and format_field :: "pystr \<Rightarrow> pystr \<Rightarrow> pystr \<Rightarrow> pystr \<Rightarrow> format_result" where
  "format_literal item sens [] = Rendered []"
| "format_literal item sens (c # cs) =
     (if c = lbrace then
        (case cs of
           [] \<Rightarrow> Raises
         | d # ds \<Rightarrow>
             if d = lbrace then emit [lbrace] (format_literal item sens ds)
             else format_field item sens [] cs)
      else if c = rbrace then
        (case cs of
           [] \<Rightarrow> Raises
         | d # ds \<Rightarrow>
             if d = rbrace then emit [rbrace] (format_literal item sens ds)
             else Raises)
      else emit [c] (format_literal item sens cs))"
| "format_field item sens name [] = Raises"
| "format_field item sens name (c # cs) =
     (if c = rbrace then
        (if name = u ''item_name'' then emit item (format_literal item sens cs)
         else if name = u ''sensitivity'' then emit sens (format_literal item sens cs)
         else Raises)
      else if c = lbrace then Raises
      else if c \<in> of_char ` {CHR ''!'', CHR '':'', CHR ''.'', CHR ''[''} then NotModelled
      else format_field item sens (name @ [c]) cs)"











section \<open>Notions used to state the properties of the registry\<close>

text \<open>An entry is live at a clock reading when its end time is strictly later.\<close>

definition cooldown_live :: "state_manager \<Rightarrow> pystr \<Rightarrow> real \<Rightarrow> bool" where
  "cooldown_live s state_key current_time =
     (case fmlookup (cooldowns s) state_key of
        Some cooldown_end \<Rightarrow> current_time < cooldown_end
      | None \<Rightarrow> False)"

definition state_live :: "state_manager \<Rightarrow> pystr \<Rightarrow> real \<Rightarrow> bool" where
  "state_live s state_key current_time =
     (case fmlookup (active_states s) state_key of
        Some end_time \<Rightarrow> current_time < end_time
      | None \<Rightarrow> False)"

definition live_count :: "state_manager \<Rightarrow> real \<Rightarrow> nat" where
  "live_count s current_time =
     fcard (ffilter (\<lambda>key. state_live s key current_time) (fmdom (active_states s)))"

text \<open>The size of the dictionary itself, stale entries included, against the capacity.\<close>

definition within_capacity :: "state_manager \<Rightarrow> bool" where
  "within_capacity s \<longleftrightarrow>
     int (fcard (fmdom (active_states s))) \<le> max_concurrent_states s"

text \<open>
  A call of a public method of the registry, and the state it leaves behind when it is
  made at clock reading \<open>t\<close>. \<open>run\<close> performs a sequence of calls, each with its own
  clock reading.
\<close>

datatype call =
  Activate pystr pystr int int real
  | IsActive pystr pystr
  | Remaining pystr pystr
  | Deactivate pystr pystr
  | Info real

fun exec :: "state_manager \<Rightarrow> real \<times> call \<Rightarrow> state_manager" where
  "exec s (t, Activate sid p d c t') = snd (activate_state s sid p d c t t')"
| "exec s (t, IsActive sid p) = snd (is_state_active s sid p t)"
| "exec s (t, Remaining sid p) = s"
| "exec s (t, Deactivate sid p) = snd (deactivate_state s sid p)"
| "exec s (t, Info t') = snd (get_active_states_info s t t')"

definition run :: "state_manager \<Rightarrow> (real \<times> call) list \<Rightarrow> state_manager" where
  "run s calls = foldl exec s calls"

section \<open>Facts about the registry\<close>


lemma expired_keys_iff:
  "k |\<in>| expired_keys m t \<longleftrightarrow> (\<exists>e. fmlookup m k = Some e \<and> e \<le> t)"
  by (auto simp: expired_keys_def fmlookup_dom_iff split: option.splits)

lemma lookup_drop_expired:
  "fmlookup (fmdrop_fset (expired_keys m t) m) k =
     (case fmlookup m k of Some e \<Rightarrow> if e \<le> t then None else Some e | None \<Rightarrow> None)"
  by (auto simp: expired_keys_iff split: option.splits)

lemma cleanup_active_lookup:
  "fmlookup (active_states (cleanup_expired_states s t)) k =
     (case fmlookup (active_states s) k of
        Some e \<Rightarrow> if e \<le> t then None else Some e | None \<Rightarrow> None)"
  by (auto simp: cleanup_expired_states_def expired_keys_iff split: option.splits)

lemma cleanup_cooldowns_lookup:
  "fmlookup (cooldowns (cleanup_expired_states s t)) k =
     (case fmlookup (cooldowns s) k of
        Some e \<Rightarrow> if e \<le> t then None else Some e | None \<Rightarrow> None)"
  by (auto simp: cleanup_expired_states_def expired_keys_iff split: option.splits)

lemma cleanup_max [simp]:
  "max_concurrent_states (cleanup_expired_states s t) = max_concurrent_states s"
  by (simp add: cleanup_expired_states_def)

lemma fcard_cleanup:
  "fcard (fmdom (active_states (cleanup_expired_states s t))) = live_count s t"
proof -
  have "fmdom (active_states (cleanup_expired_states s t)) =
        ffilter (\<lambda>key. state_live s key t) (fmdom (active_states s))"
    by (auto simp: cleanup_expired_states_def expired_keys_iff fmlookup_dom_iff state_live_def
          split: option.splits)
  then show ?thesis by (simp add: live_count_def)
qed

lemma live_count_le: "live_count s t \<le> fcard (fmdom (active_states s))"
  unfolding live_count_def by (rule fcard_mono) auto

lemma fcard_drop_le: "fcard (fmdom (fmdrop k m)) \<le> fcard (fmdom m)"
  by (rule fcard_mono) auto

lemma activate_state_cases:
  obtains
    (cooling) ce where "fmlookup (cooldowns s) (generate_state_key sid p) = Some ce" "t < ce"
      "activate_state s sid p d c t t' = ((False, CoolingDown (py_int (ce - t))), s)"
  | (active) e where "\<not> (\<exists>ce. fmlookup (cooldowns s) (generate_state_key sid p) = Some ce \<and> t < ce)"
      "fmlookup (active_states s) (generate_state_key sid p) = Some e" "t < e"
      "activate_state s sid p d c t t' = ((False, AlreadyActive (py_int (e - t))), s)"
  | (full) s2 where "\<not> (\<exists>ce. fmlookup (cooldowns s) (generate_state_key sid p) = Some ce \<and> t < ce)"
      "\<not> (\<exists>e. fmlookup (active_states s) (generate_state_key sid p) = Some e \<and> t < e)"
      "s2 = cleanup_expired_states
              (s\<lparr>active_states := fmdrop (generate_state_key sid p) (active_states s)\<rparr>) t'"
      "int (fcard (fmdom (active_states s2))) \<ge> max_concurrent_states s"
      "activate_state s sid p d c t t' = ((False, CapacityReached), s2)"
  | (ok) s2 where "\<not> (\<exists>ce. fmlookup (cooldowns s) (generate_state_key sid p) = Some ce \<and> t < ce)"
      "\<not> (\<exists>e. fmlookup (active_states s) (generate_state_key sid p) = Some e \<and> t < e)"
      "s2 = cleanup_expired_states
              (s\<lparr>active_states := fmdrop (generate_state_key sid p) (active_states s)\<rparr>) t'"
      "int (fcard (fmdom (active_states s2))) < max_concurrent_states s"
      "activate_state s sid p d c t t' =
         ((True, Activated d),
          s2\<lparr>active_states := fmupd (generate_state_key sid p) (t + real_of_int d) (active_states s2),
             cooldowns := fmupd (generate_state_key sid p) (t + real_of_int c) (cooldowns s2)\<rparr>)"
proof -
  let ?k = "generate_state_key sid p"
  show ?thesis
  proof (cases "\<exists>ce. fmlookup (cooldowns s) ?k = Some ce \<and> t < ce")
    case True
    then obtain ce where "fmlookup (cooldowns s) ?k = Some ce" "t < ce" by blast
    then show ?thesis using cooling by (simp add: activate_state_def)
  next
    case nc: False
    then have c0: "(case fmlookup (cooldowns s) ?k of
              Some cooldown_end \<Rightarrow>
                if t < cooldown_end
                then Some (py_int (cooldown_end - t)) else None
            | None \<Rightarrow> None) = None"
      by (auto split: option.splits)
    show ?thesis
    proof (cases "\<exists>e. fmlookup (active_states s) ?k = Some e \<and> t < e")
      case True
      then obtain e where "fmlookup (active_states s) ?k = Some e" "t < e" by blast
      then show ?thesis using active[OF nc] c0 by (simp add: activate_state_def)
    next
      case na: False
      then have a0: "(case fmlookup (active_states s) ?k of
                  Some end_time \<Rightarrow>
                    if t < end_time
                    then Some (py_int (end_time - t)) else None
                | None \<Rightarrow> None) = None"
        by (auto split: option.splits)
      define s2 where "s2 = cleanup_expired_states
              (s\<lparr>active_states := fmdrop ?k (active_states s)\<rparr>) t'"
      have m: "max_concurrent_states s2 = max_concurrent_states s"
        by (simp add: s2_def)
      show ?thesis
      proof (cases "int (fcard (fmdom (active_states s2))) \<ge> max_concurrent_states s")
        case True
        then show ?thesis using full[OF nc na s2_def] c0 a0 m
          by (simp add: activate_state_def Let_def flip: s2_def)
      next
        case False
        then show ?thesis using ok[OF nc na s2_def] c0 a0 m
          by (simp add: activate_state_def Let_def flip: s2_def)
      qed
    qed
  qed
qed

lemma activate_state_within_capacity:
  assumes "within_capacity s"
  shows "within_capacity (snd (activate_state s sid p d c t t'))"
proof (cases rule: activate_state_cases[where s=s and sid=sid and p=p and t=t and d=d and c=c and t'=t'])
  case (cooling ce)
  then show ?thesis using assms by simp
next
  case (active e)
  then show ?thesis using assms by simp
next
  case (full s2)
  have "fcard (fmdom (active_states s2)) \<le> fcard (fmdom (active_states s))"
    unfolding full(3) fcard_cleanup
    by (rule order_trans[OF live_count_le]) (simp add: fcard_fminus1_le)
  then show ?thesis using assms full by (simp add: within_capacity_def)
next
  case (ok s2)
  have "fcard (finsert (generate_state_key sid p) (fmdom (active_states s2)))
        \<le> Suc (fcard (fmdom (active_states s2)))"
    by (simp add: fcard_finsert_if)
  then show ?thesis using ok by (simp add: within_capacity_def)
qed

lemma is_state_active_within_capacity:
  assumes "within_capacity s"
  shows "within_capacity (snd (is_state_active s sid p t))"
proof -
  have "fcard (fmdom (fmdrop (generate_state_key sid p) (active_states s)))
          \<le> fcard (fmdom (active_states s))" by (rule fcard_drop_le)
  then show ?thesis using assms
    by (auto simp: is_state_active_def within_capacity_def Let_def split: option.splits)
qed

lemma deactivate_state_within_capacity:
  assumes "within_capacity s"
  shows "within_capacity (snd (deactivate_state s sid p))"
proof -
  have "fcard (fmdom (fmdrop (generate_state_key sid p) (active_states s)))
          \<le> fcard (fmdom (active_states s))" by (rule fcard_drop_le)
  then show ?thesis using assms
    by (auto simp: deactivate_state_def within_capacity_def Let_def)
qed

lemma cleanup_within_capacity:
  assumes "within_capacity s"
  shows "within_capacity (cleanup_expired_states s t)"
  using assms live_count_le[of s t]
  by (simp add: within_capacity_def fcard_cleanup)

lemma exec_within_capacity:
  "within_capacity s \<Longrightarrow> within_capacity (exec s tc)"
proof (cases tc)
  case (Pair t c)
  assume "within_capacity s"
  then show ?thesis unfolding Pair
    by (cases c)
       (simp_all add: activate_state_within_capacity is_state_active_within_capacity
          deactivate_state_within_capacity cleanup_within_capacity get_active_states_info_def Let_def)
qed

lemma activate_state_max:
  "max_concurrent_states (snd (activate_state s sid p d c t t')) = max_concurrent_states s"
  by (cases rule: activate_state_cases[where s=s and sid=sid and p=p and t=t and d=d and c=c and t'=t'])
     simp_all

lemma exec_max: "max_concurrent_states (exec s tc) = max_concurrent_states s"
proof (cases tc)
  case (Pair t c)
  show ?thesis unfolding Pair
    by (cases c)
       (auto simp: activate_state_max is_state_active_def deactivate_state_def
          get_active_states_info_def Let_def split: option.splits)
qed

lemma run_within_capacity:
  "within_capacity s \<Longrightarrow> within_capacity (run s calls)
     \<and> max_concurrent_states (run s calls) = max_concurrent_states s"
  unfolding run_def
  by (induction calls arbitrary: s) (simp_all add: exec_within_capacity exec_max)

lemma ffilter_finsert_if:
  "ffilter P (finsert x A) = (if P x then finsert x (ffilter P A) else ffilter P A)"
  by auto

lemma ffilter_fempty_eq: "ffilter P {||} = {||}"
  by auto

lemmas registry_eval =
  activate_state_def is_state_active_def get_remaining_time_def deactivate_state_def
  cleanup_expired_states_def expired_keys_def init_state_manager_def generate_state_key_def
  u_def py_int_def Let_def ffilter_finsert_if ffilter_fempty_eq fcard_finsert_if fcard_fempty
  cooldown_live_def state_live_def live_count_def

lemma activate_state_cooling:
  assumes "fmlookup (cooldowns s) (generate_state_key sid p) = Some ce" "t < ce"
  shows "activate_state s sid p d c t t' = ((False, CoolingDown (py_int (ce - t))), s)"
  using assms by (simp add: activate_state_def)

lemma activate_state_success:
  assumes "activate_state s sid p d c t t' = ((True, m), s')"
  shows "m = Activated d
       \<and> fmlookup (active_states s') (generate_state_key sid p) = Some (t + real_of_int d)
       \<and> fmlookup (cooldowns s') (generate_state_key sid p) = Some (t + real_of_int c)"
  using assms
  by (cases rule: activate_state_cases[where s=s and sid=sid and p=p and t=t and d=d and c=c and t'=t'])
     auto

lemma live_count_mono:
  assumes "\<And>k e. fmlookup (active_states s') k = Some e \<Longrightarrow> fmlookup (active_states s) k = Some e"
    and "t \<le> t2"
  shows "live_count s' t2 \<le> live_count s t"
  unfolding live_count_def
proof (rule fcard_mono, rule fsubsetI)
  fix k
  assume "k |\<in>| ffilter (\<lambda>key. state_live s' key t2) (fmdom (active_states s'))"
  then obtain e where e: "fmlookup (active_states s') k = Some e" "t2 < e"
    by (auto simp: state_live_def fmlookup_dom_iff)
  then have "fmlookup (active_states s) k = Some e" "t < e"
    using assms by auto
  then show "k |\<in>| ffilter (\<lambda>key. state_live s key t) (fmdom (active_states s))"
    by (simp add: state_live_def fmlookup_dom_iff)
qed

lemma activate_state_shrinks_or_fits:
  "(\<forall>k e. fmlookup (active_states (snd (activate_state s sid p d c t t'))) k = Some e
        \<longrightarrow> fmlookup (active_states s) k = Some e)
   \<or> within_capacity (snd (activate_state s sid p d c t t'))"
proof (cases rule: activate_state_cases[where s=s and sid=sid and p=p and t=t and d=d and c=c and t'=t'])
  case (full s2)
  have "fmlookup (active_states s2) k = Some e \<Longrightarrow> fmlookup (active_states s) k = Some e" for k e
    unfolding full(3) by (auto simp: cleanup_active_lookup split: option.splits if_splits)
  then show ?thesis using full(5) by simp
next
  case (ok s2)
  have "fcard (finsert (generate_state_key sid p) (fmdom (active_states s2)))
        \<le> Suc (fcard (fmdom (active_states s2)))"
    by (simp add: fcard_finsert_if)
  then have "within_capacity (snd (activate_state s sid p d c t t'))"
    using ok by (simp add: within_capacity_def)
  then show ?thesis ..
qed simp_all

lemma exec_shrinks_or_fits:
  "(\<forall>k e. fmlookup (active_states (exec s tc)) k = Some e
        \<longrightarrow> fmlookup (active_states s) k = Some e)
   \<or> within_capacity (exec s tc)"
proof (cases tc)
  case (Pair t c)
  show ?thesis unfolding Pair
  proof (cases c)
    case (Activate sid p d c' t')
    then show "(\<forall>k e. fmlookup (active_states (exec s (t, c))) k = Some e
        \<longrightarrow> fmlookup (active_states s) k = Some e)
   \<or> within_capacity (exec s (t, c))"
      using activate_state_shrinks_or_fits[of s sid p d c' t t'] by simp
  qed (auto simp: is_state_active_def deactivate_state_def get_active_states_info_def Let_def
         cleanup_active_lookup split: option.splits if_splits)
qed

lemma exec_live_count:
  assumes "int (live_count s t) \<le> max_concurrent_states s" "t \<le> now"
  shows "int (live_count (exec s tc) now) \<le> max_concurrent_states (exec s tc)"
proof -
  from exec_shrinks_or_fits[of s tc] show ?thesis
  proof
    assume "\<forall>k e. fmlookup (active_states (exec s tc)) k = Some e
        \<longrightarrow> fmlookup (active_states s) k = Some e"
    then have "live_count (exec s tc) now \<le> live_count s t"
      using assms(2) by (intro live_count_mono) auto
    then show ?thesis using assms(1) by (simp add: exec_max)
  next
    assume "within_capacity (exec s tc)"
    then show ?thesis using live_count_le[of "exec s tc" now]
      by (simp add: within_capacity_def)
  qed
qed

lemma live_count_drop_stale:
  assumes "\<not> state_live s k t" "t \<le> t'"
  shows "live_count (s\<lparr>active_states := fmdrop k (active_states s)\<rparr>) t' = live_count s t'"
proof -
  have "ffilter (\<lambda>key. state_live (s\<lparr>active_states := fmdrop k (active_states s)\<rparr>) key t')
          (fmdom (fmdrop k (active_states s)))
      = ffilter (\<lambda>key. state_live s key t') (fmdom (active_states s))"
    using assms by (auto simp: state_live_def split: option.splits)
  then show ?thesis by (simp add: live_count_def)
qed

lemma activate_state_full:
  assumes "t \<le> t'" "max_concurrent_states s \<le> int (live_count s t')"
  shows "\<not> fst (fst (activate_state s sid p d c t t'))"
    and "\<not> cooldown_live s (generate_state_key sid p) t \<Longrightarrow>
         \<not> state_live s (generate_state_key sid p) t \<Longrightarrow>
         fst (activate_state s sid p d c t t') = (False, CapacityReached)"
proof -
  have *: "\<not> fst (fst (activate_state s sid p d c t t')) \<and>
     (\<not> cooldown_live s (generate_state_key sid p) t \<longrightarrow>
         \<not> state_live s (generate_state_key sid p) t \<longrightarrow>
         fst (activate_state s sid p d c t t') = (False, CapacityReached))"
  proof (cases rule: activate_state_cases[where s=s and sid=sid and p=p and t=t and d=d and c=c and t'=t'])
    case (cooling ce)
    then show ?thesis by (simp add: cooldown_live_def)
  next
    case (active e)
    then show ?thesis by (simp add: state_live_def)
  next
    case (full s2)
    then show ?thesis by simp
  next
    case (ok s2)
    have "\<not> state_live s (generate_state_key sid p) t"
      using ok(2) by (auto simp: state_live_def split: option.splits)
    then have "fcard (fmdom (active_states s2)) = live_count s t'"
      unfolding ok(3) fcard_cleanup using assms(1) by (rule live_count_drop_stale)
    then show ?thesis using ok(4) assms(2) by simp
  qed
  show "\<not> fst (fst (activate_state s sid p d c t t'))" using * by simp
  show "\<not> cooldown_live s (generate_state_key sid p) t \<Longrightarrow>
         \<not> state_live s (generate_state_key sid p) t \<Longrightarrow>
         fst (activate_state s sid p d c t t') = (False, CapacityReached)" using * by simp
qed

lemma init_within_capacity: "0 \<le> m \<Longrightarrow> within_capacity (init_state_manager m)"
  by (simp add: within_capacity_def init_state_manager_def fcard_fempty)

section \<open>Properties of the registry\<close>



text \<open>
  C2. The number of live entries of \<open>active_states\<close> never exceeds
  \<open>max_concurrent_states\<close>: it holds after every sequence of calls on a registry created
  with a capacity \<open>m \<ge> 0\<close>, whatever the clock readings; every single call preserves
  the bound as time moves on; and \<open>activate_state\<close> fails whenever the entries that
  survive the purge are at or above the capacity, with the capacity message once the
  cooldown check and the already-active check have let the call through.
\<close>

theorem capacity_never_exceeded:
  "(0 \<le> m \<longrightarrow> int (live_count (run (init_state_manager m) calls) now) \<le> m)
   \<and> (int (live_count s t) \<le> max_concurrent_states s \<and> t \<le> now \<longrightarrow>
        int (live_count (exec s tc) now) \<le> max_concurrent_states (exec s tc))
   \<and> (t \<le> t' \<and> max_concurrent_states s \<le> int (live_count s t') \<longrightarrow>
        \<not> fst (fst (activate_state s sid p d c t t')))
   \<and> (t \<le> t' \<and> max_concurrent_states s \<le> int (live_count s t')
        \<and> \<not> cooldown_live s (generate_state_key sid p) t
        \<and> \<not> state_live s (generate_state_key sid p) t \<longrightarrow>
        fst (activate_state s sid p d c t t') = (False, CapacityReached))"
proof -
  have 1: "int (live_count (run (init_state_manager m) calls) now) \<le> m" if "0 \<le> m"
  proof -
    have "within_capacity (run (init_state_manager m) calls)"
      and "max_concurrent_states (run (init_state_manager m) calls) = m"
      using run_within_capacity[OF init_within_capacity[OF that], of calls]
      by (simp_all add: init_state_manager_def)
    then show ?thesis
      using live_count_le[of "run (init_state_manager m) calls" now]
      by (simp add: within_capacity_def)
  qed
  show ?thesis using 1 exec_live_count activate_state_full by blast
qed

theorem capacity_never_exceeded_witness:
  "int (live_count (run (init_state_manager 1)
          [(1000, Activate (u ''s1'') (u ''qq'') 180 30 1000),
           (1010, Activate (u ''s2'') (u ''qq'') 180 30 1010)]) 1010) \<le> 1
   \<and> live_count \<lparr>active_states = fmupd (u ''qq_s1'') 1180 fmempty,
         cooldowns = fmupd (u ''qq_s1'') 1030 fmempty,
         max_concurrent_states = 1\<rparr> 1010 = 1
   \<and> int (live_count (exec \<lparr>active_states = fmupd (u ''qq_s1'') 1180 fmempty,
         cooldowns = fmupd (u ''qq_s1'') 1030 fmempty,
         max_concurrent_states = 1\<rparr> (1010, Activate (u ''s2'') (u ''qq'') 180 30 1010)) 1020) \<le> 1
   \<and> fst (activate_state \<lparr>active_states = fmupd (u ''qq_s1'') 1180 fmempty,
         cooldowns = fmupd (u ''qq_s1'') 1030 fmempty,
         max_concurrent_states = 1\<rparr> (u ''s2'') (u ''qq'') 180 30 1010 1010) = (False, CapacityReached)"
proof -
  let ?SA = "\<lparr>active_states = fmupd (u ''qq_s1'') 1180 fmempty,
         cooldowns = fmupd (u ''qq_s1'') 1030 fmempty,
         max_concurrent_states = 1\<rparr>"
  have l: "live_count ?SA 1010 = 1"
    by (simp add: registry_eval)
  have nc: "\<not> cooldown_live ?SA (generate_state_key (u ''s2'') (u ''qq'')) 1010"
    by (simp add: registry_eval)
  have na: "\<not> state_live ?SA (generate_state_key (u ''s2'') (u ''qq'')) 1010"
    by (simp add: registry_eval)
  have e: "max_concurrent_states (exec ?SA (1010, Activate (u ''s2'') (u ''qq'') 180 30 1010)) = 1"
    unfolding exec_max by simp
  show ?thesis
    using capacity_never_exceeded[of 1 "[(1000, Activate (u ''s1'') (u ''qq'') 180 30 1000),
           (1010, Activate (u ''s2'') (u ''qq'') 180 30 1010)]" 1010 ?SA 1010 
           "(1010, Activate (u ''s2'') (u ''qq'') 180 30 1010)" 1010 "u ''s2''" "u ''qq''" 180 30]
      capacity_never_exceeded[of 1 "[]" 1020 ?SA 1010 
           "(1010, Activate (u ''s2'') (u ''qq'') 180 30 1010)" 1010 "u ''s2''" "u ''qq''" 180 30]
      l nc na e
    by simp
qed

text \<open>
  C3. While the cooldown entry of a key is live (\<open>now < ce\<close>), \<open>activate_state\<close> on that
  key fails with the cooldown message, which carries the whole seconds left, and leaves
  the registry as it was; nothing is asked about the active entry, so this holds whether
  it has expired or not and before the already-active check. In particular a second
  call within the cooldown of a successful first call fails so.
\<close>

theorem second_activate_cooling_down:
  "(fmlookup (cooldowns s) (generate_state_key sid p) = Some ce \<and> now < ce \<longrightarrow>
      activate_state s sid p d c now now' = ((False, CoolingDown (py_int (ce - now))), s))
   \<and> (activate_state s0 sid p d0 c0 t0 t0' = ((True, msg), s1) \<and> now < t0 + real_of_int c0 \<longrightarrow>
      activate_state s1 sid p d c now now' =
        ((False, CoolingDown (py_int (t0 + real_of_int c0 - now))), s1))"
proof (intro conjI impI)
  assume "fmlookup (cooldowns s) (generate_state_key sid p) = Some ce \<and> now < ce"
  then show "activate_state s sid p d c now now' = ((False, CoolingDown (py_int (ce - now))), s)"
    by (simp add: activate_state_cooling)
next
  assume a: "activate_state s0 sid p d0 c0 t0 t0' = ((True, msg), s1) \<and> now < t0 + real_of_int c0"
  then have "fmlookup (cooldowns s1) (generate_state_key sid p) = Some (t0 + real_of_int c0)"
    using activate_state_success by blast
  then show "activate_state s1 sid p d c now now' =
        ((False, CoolingDown (py_int (t0 + real_of_int c0 - now))), s1)"
    using a by (simp add: activate_state_cooling)
qed

theorem second_activate_cooling_down_witness:
  "activate_state
     \<lparr>active_states = fmupd (u ''qq_s1'') 1180 fmempty,
      cooldowns = fmupd (u ''qq_s1'') 1300 fmempty,
      max_concurrent_states = 5\<rparr> (u ''s1'') (u ''qq'') 180 300 1200 1200
   = ((False, CoolingDown 100),
      \<lparr>active_states = fmupd (u ''qq_s1'') 1180 fmempty,
       cooldowns = fmupd (u ''qq_s1'') 1300 fmempty,
       max_concurrent_states = 5\<rparr>)
   \<and> activate_state
     \<lparr>active_states = fmupd (u ''qq_s1'') 1180 fmempty,
      cooldowns = fmupd (u ''qq_s1'') 1030 fmempty,
      max_concurrent_states = 1\<rparr> (u ''s1'') (u ''qq'') 60 10 1010 1010
   = ((False, CoolingDown 20),
      \<lparr>active_states = fmupd (u ''qq_s1'') 1180 fmempty,
       cooldowns = fmupd (u ''qq_s1'') 1030 fmempty,
       max_concurrent_states = 1\<rparr>)"
proof -
  let ?SB = "\<lparr>active_states = fmupd (u ''qq_s1'') 1180 fmempty,
      cooldowns = fmupd (u ''qq_s1'') 1300 fmempty,
      max_concurrent_states = 5\<rparr>"
  let ?SA = "\<lparr>active_states = fmupd (u ''qq_s1'') 1180 fmempty,
      cooldowns = fmupd (u ''qq_s1'') 1030 fmempty,
      max_concurrent_states = 1\<rparr>"
  have k: "fmlookup (cooldowns ?SB) (generate_state_key (u ''s1'') (u ''qq'')) = Some 1300
           \<and> (1200::real) < 1300"
    by (simp add: registry_eval)
  have h: "activate_state (init_state_manager 1) (u ''s1'') (u ''qq'') 180 30 1000 1000 =
     ((True, Activated 180), ?SA) \<and> (1010::real) < 1000 + real_of_int 30"
    by (simp add: registry_eval)
  have p: "py_int (1300 - 1200) = 100" "py_int (1000 + real_of_int 30 - 1010) = 20"
    by (simp_all add: py_int_def)
  show ?thesis
    using second_activate_cooling_down[of ?SB "u ''s1''" "u ''qq''" 1300 1200 180 300 1200
        "init_state_manager 1" 180 30 1000 1000 "Activated 180" ?SA]
      second_activate_cooling_down[of ?SB "u ''s1''" "u ''qq''" 1300 1010 60 10 1010
        "init_state_manager 1" 180 30 1000 1000 "Activated 180" ?SA]
      k h p
    by simp
qed

text \<open>
  C4. \<open>is_state_active\<close> returns true exactly when the registry holds an entry for the key
  whose end time is strictly later than the clock reading. An entry that has expired
  (clock at or past the end time) is deleted by the call, which returns false;
  otherwise the registry is unchanged. In particular, once \<open>d\<close> seconds have passed
  after a successful \<open>activate_state\<close>, the call returns false and deletes the entry.
\<close>

theorem is_state_active_iff_unexpired:
  "(fst (is_state_active s sid p now) \<longleftrightarrow> state_live s (generate_state_key sid p) now)
   \<and> (\<forall>e. fmlookup (active_states s) (generate_state_key sid p) = Some e \<and> e \<le> now \<longrightarrow>
        is_state_active s sid p now =
          (False, s\<lparr>active_states := fmdrop (generate_state_key sid p) (active_states s)\<rparr>)
        \<and> fmlookup (active_states (snd (is_state_active s sid p now)))
             (generate_state_key sid p) = None)
   \<and> (\<forall>e. fmlookup (active_states s) (generate_state_key sid p) = Some e \<and> now < e \<longrightarrow>
        is_state_active s sid p now = (True, s))
   \<and> (fmlookup (active_states s) (generate_state_key sid p) = None \<longrightarrow>
        is_state_active s sid p now = (False, s))
   \<and> (activate_state s0 sid p d c t0 t0' = ((True, msg), s) \<and> t0 + real_of_int d \<le> now \<longrightarrow>
        is_state_active s sid p now =
          (False, s\<lparr>active_states := fmdrop (generate_state_key sid p) (active_states s)\<rparr>))"
proof -
  have "activate_state s0 sid p d c t0 t0' = ((True, msg), s) \<Longrightarrow>
     fmlookup (active_states s) (generate_state_key sid p) = Some (t0 + real_of_int d)"
    using activate_state_success by blast
  then show ?thesis
    by (auto simp: is_state_active_def state_live_def split: option.splits)
qed

theorem is_state_active_iff_unexpired_witness:
  "is_state_active
     \<lparr>active_states = fmupd (u ''qq_s1'') 1180 fmempty,
      cooldowns = fmupd (u ''qq_s1'') 1030 fmempty,
      max_concurrent_states = 1\<rparr> (u ''s1'') (u ''qq'') 1180
   = (False,
      \<lparr>active_states = fmempty,
       cooldowns = fmupd (u ''qq_s1'') 1030 fmempty,
       max_concurrent_states = 1\<rparr>)
   \<and> is_state_active
     \<lparr>active_states = fmupd (u ''qq_s1'') 1180 fmempty,
      cooldowns = fmupd (u ''qq_s1'') 1030 fmempty,
      max_concurrent_states = 1\<rparr> (u ''s1'') (u ''qq'') 1179
   = (True,
      \<lparr>active_states = fmupd (u ''qq_s1'') 1180 fmempty,
      cooldowns = fmupd (u ''qq_s1'') 1030 fmempty,
      max_concurrent_states = 1\<rparr>)
   \<and> is_state_active
     \<lparr>active_states = fmupd (u ''qq_s1'') 1180 fmempty,
      cooldowns = fmupd (u ''qq_s1'') 1030 fmempty,
      max_concurrent_states = 1\<rparr> (u ''s2'') (u ''qq'') 1179
   = (False,
      \<lparr>active_states = fmupd (u ''qq_s1'') 1180 fmempty,
      cooldowns = fmupd (u ''qq_s1'') 1030 fmempty,
      max_concurrent_states = 1\<rparr>)"
proof -
  let ?SA = "\<lparr>active_states = fmupd (u ''qq_s1'') 1180 fmempty,
      cooldowns = fmupd (u ''qq_s1'') 1030 fmempty,
      max_concurrent_states = 1\<rparr>"
  have k: "fmlookup (active_states ?SA) (generate_state_key (u ''s1'') (u ''qq'')) = Some 1180"
    "fmlookup (active_states ?SA) (generate_state_key (u ''s2'') (u ''qq'')) = None"
    by (simp_all add: registry_eval)
  have h: "activate_state (init_state_manager 1) (u ''s1'') (u ''qq'') 180 30 1000 1000 =
     ((True, Activated 180), ?SA) \<and> (1000::real) + real_of_int 180 \<le> 1180"
    by (simp add: registry_eval)
  have d: "fmdrop (generate_state_key (u ''s1'') (u ''qq'')) (fmupd (u ''qq_s1'') 1180 fmempty)
            = (fmempty :: (pystr, real) fmap)"
    by (simp add: registry_eval fmdrop_fmupd)
  show ?thesis
    using is_state_active_iff_unexpired[of ?SA "u ''s1''" "u ''qq''" 1180
            "init_state_manager 1" 180 30 1000 1000 "Activated 180"]
       is_state_active_iff_unexpired[of ?SA "u ''s1''" "u ''qq''" 1179
            "init_state_manager 1" 180 30 1000 1000 "Activated 180"]
       is_state_active_iff_unexpired[of ?SA "u ''s2''" "u ''qq''" 1179
            "init_state_manager 1" 180 30 1000 1000 "Activated 180"]
       k h d
    by simp
qed

text \<open>
  C5. \<open>deactivate_state\<close> deletes the active entry of the key when there is one and
  returns true, returns false otherwise; the cooldowns are unchanged and
  \<open>is_state_active\<close> is false afterwards. Hence \<open>activate_state\<close> on that key within
  the cooldown of the original activation still fails with the cooldown message.
\<close>

theorem deactivate_keeps_cooldown:
  "deactivate_state s sid p =
     (if generate_state_key sid p |\<in>| fmdom (active_states s)
      then (True, s\<lparr>active_states := fmdrop (generate_state_key sid p) (active_states s)\<rparr>)
      else (False, s))
   \<and> cooldowns (snd (deactivate_state s sid p)) = cooldowns s
   \<and> fmlookup (active_states (snd (deactivate_state s sid p))) (generate_state_key sid p) = None
   \<and> is_state_active (snd (deactivate_state s sid p)) sid p now
       = (False, snd (deactivate_state s sid p))
   \<and> (activate_state s0 sid p d0 c0 t0 t0' = ((True, msg), s) \<and> now < t0 + real_of_int c0 \<longrightarrow>
        activate_state (snd (deactivate_state s sid p)) sid p d c now now' =
          ((False, CoolingDown (py_int (t0 + real_of_int c0 - now))),
           snd (deactivate_state s sid p)))"
proof -
  let ?s2 = "snd (deactivate_state s sid p)"
  have c: "cooldowns ?s2 = cooldowns s"
    by (simp add: deactivate_state_def Let_def)
  have n: "fmlookup (active_states ?s2) (generate_state_key sid p) = None"
    by (auto simp: deactivate_state_def Let_def fmlookup_dom_iff)
  have i: "is_state_active ?s2 sid p now = (False, ?s2)"
    using n by (simp add: is_state_active_def)
  have a: "activate_state ?s2 sid p d c now now' =
          ((False, CoolingDown (py_int (t0 + real_of_int c0 - now))), ?s2)"
    if "activate_state s0 sid p d0 c0 t0 t0' = ((True, msg), s)" "now < t0 + real_of_int c0"
  proof -
    have "fmlookup (cooldowns ?s2) (generate_state_key sid p) = Some (t0 + real_of_int c0)"
      using activate_state_success[OF that(1)] c by simp
    then show ?thesis using that(2) by (rule activate_state_cooling)
  qed
  have r: "deactivate_state s sid p =
     (if generate_state_key sid p |\<in>| fmdom (active_states s)
      then (True, s\<lparr>active_states := fmdrop (generate_state_key sid p) (active_states s)\<rparr>)
      else (False, s))"
    by (simp add: deactivate_state_def Let_def)
  show ?thesis using c n i a r by blast
qed

theorem deactivate_keeps_cooldown_witness:
  "deactivate_state
     \<lparr>active_states = fmupd (u ''qq_s1'') 1180 fmempty,
      cooldowns = fmupd (u ''qq_s1'') 1030 fmempty,
      max_concurrent_states = 1\<rparr> (u ''s1'') (u ''qq'')
   = (True,
      \<lparr>active_states = fmempty,
       cooldowns = fmupd (u ''qq_s1'') 1030 fmempty,
       max_concurrent_states = 1\<rparr>)
   \<and> activate_state
     \<lparr>active_states = fmempty,
      cooldowns = fmupd (u ''qq_s1'') 1030 fmempty,
      max_concurrent_states = 1\<rparr> (u ''s1'') (u ''qq'') 180 30 1010 1010
   = ((False, CoolingDown 20),
      \<lparr>active_states = fmempty,
       cooldowns = fmupd (u ''qq_s1'') 1030 fmempty,
       max_concurrent_states = 1\<rparr>)"
proof -
  let ?SA = "\<lparr>active_states = fmupd (u ''qq_s1'') 1180 fmempty,
      cooldowns = fmupd (u ''qq_s1'') 1030 fmempty,
      max_concurrent_states = 1\<rparr>"
  have k: "generate_state_key (u ''s1'') (u ''qq'') |\<in>| fmdom (active_states ?SA)"
    by (simp add: registry_eval)
  have h: "activate_state (init_state_manager 1) (u ''s1'') (u ''qq'') 180 30 1000 1000 =
     ((True, Activated 180), ?SA) \<and> (1010::real) < 1000 + real_of_int 30"
    by (simp add: registry_eval)
  have d: "fmdrop (generate_state_key (u ''s1'') (u ''qq'')) (fmupd (u ''qq_s1'') 1180 fmempty)
            = (fmempty :: (pystr, real) fmap)"
    by (simp add: registry_eval fmdrop_fmupd)
  have p: "py_int (1000 + real_of_int 30 - 1010) = 20"
    by (simp add: py_int_def)
  note T = deactivate_keeps_cooldown[of ?SA "u ''s1''" "u ''qq''" 1010
            "init_state_manager 1" 180 30 1000 1000 "Activated 180" 180 30 1010]
  have r: "deactivate_state ?SA (u ''s1'') (u ''qq'') =
     (True, \<lparr>active_states = fmempty,
       cooldowns = fmupd (u ''qq_s1'') 1030 fmempty,
       max_concurrent_states = 1\<rparr>)"
    using T k d by simp
  have "activate_state (snd (deactivate_state ?SA (u ''s1'') (u ''qq''))) (u ''s1'') (u ''qq'')
          180 30 1010 1010 =
          ((False, CoolingDown (py_int (1000 + real_of_int 30 - 1010))),
           snd (deactivate_state ?SA (u ''s1'') (u ''qq'')))"
    using T h by blast
  then show ?thesis unfolding r p by simp
qed

text \<open>
  C10. A failed \<open>activate_state\<close> inserts nothing: every entry of either dictionary
  afterwards was there before with the same end time (so no cooldown is started or
  extended), the capacity is unchanged, and every entry that disappeared had expired at
  one of the two clock readings of the call; with the cooldown or the already-active
  message the registry is unchanged altogether.
\<close>

theorem failed_activate_inserts_nothing:
  assumes "activate_state s sid p d c now now' = ((False, msg), s')"
  shows "max_concurrent_states s' = max_concurrent_states s
    \<and> (\<forall>k e. fmlookup (active_states s') k = Some e \<longrightarrow> fmlookup (active_states s) k = Some e)
    \<and> (\<forall>k e. fmlookup (cooldowns s') k = Some e \<longrightarrow> fmlookup (cooldowns s) k = Some e)
    \<and> (\<forall>k e. fmlookup (active_states s) k = Some e \<and> fmlookup (active_states s') k = None
          \<longrightarrow> e \<le> now \<or> e \<le> now')
    \<and> (\<forall>k e. fmlookup (cooldowns s) k = Some e \<and> fmlookup (cooldowns s') k = None
          \<longrightarrow> e \<le> now')
    \<and> (msg \<noteq> CapacityReached \<longrightarrow> s' = s)"
proof (cases rule: activate_state_cases[where s=s and sid=sid and p=p and t=now and d=d and c=c and t'=now'])
  case (cooling ce)
  then show ?thesis using assms by auto
next
  case (active e)
  then show ?thesis using assms by auto
next
  case (full s2)
  have s': "s' = s2" and msg: "msg = CapacityReached" using full(5) assms by auto
  have 1: "max_concurrent_states s' = max_concurrent_states s"
    by (simp add: s' full(3))
  have 2: "fmlookup (active_states s') k = Some e \<Longrightarrow> fmlookup (active_states s) k = Some e" for k e
    unfolding s' full(3) by (auto simp: cleanup_active_lookup split: option.splits if_splits)
  have 3: "fmlookup (cooldowns s') k = Some e \<Longrightarrow> fmlookup (cooldowns s) k = Some e" for k e
    unfolding s' full(3) by (auto simp: cleanup_cooldowns_lookup split: option.splits if_splits)
  have 4: "fmlookup (active_states s) k = Some e \<Longrightarrow> fmlookup (active_states s') k = None
          \<Longrightarrow> e \<le> now \<or> e \<le> now'" for k e
    using full(2) unfolding s' full(3)
    by (auto simp: cleanup_active_lookup split: option.splits if_splits)
  have 5: "fmlookup (cooldowns s) k = Some e \<Longrightarrow> fmlookup (cooldowns s') k = None
          \<Longrightarrow> e \<le> now'" for k e
    unfolding s' full(3)
    by (auto simp: cleanup_cooldowns_lookup split: option.splits if_splits)
  show ?thesis using 1 2 3 4 5 msg by blast
next
  case (ok s2)
  then show ?thesis using assms by simp
qed

theorem failed_activate_inserts_nothing_witness:
  "activate_state
     \<lparr>active_states = fmupd (u ''qq_s1'') 1180 fmempty,
      cooldowns = fmupd (u ''qq_s1'') 1030 fmempty,
      max_concurrent_states = 1\<rparr> (u ''s2'') (u ''qq'') 180 30 1040 1040
   = ((False, CapacityReached),
      \<lparr>active_states = fmupd (u ''qq_s1'') 1180 fmempty,
       cooldowns = fmempty,
       max_concurrent_states = 1\<rparr>)
   \<and> fmlookup (fmupd (u ''qq_s1'') (1180::real) fmempty) (u ''qq_s2'') = None
   \<and> (1030::real) \<le> 1040"
proof -
  let ?SA = "\<lparr>active_states = fmupd (u ''qq_s1'') 1180 fmempty,
      cooldowns = fmupd (u ''qq_s1'') 1030 fmempty,
      max_concurrent_states = 1\<rparr>"
  let ?SC = "\<lparr>active_states = fmupd (u ''qq_s1'') (1180::real) fmempty,
       cooldowns = (fmempty :: (pystr, real) fmap),
       max_concurrent_states = 1::int\<rparr>"
  have h: "activate_state ?SA (u ''s2'') (u ''qq'') 180 30 1040 1040
             = ((False, CapacityReached), ?SC)"
    by (simp add: registry_eval fmdrop_fmupd)
  from failed_activate_inserts_nothing[OF h] h show ?thesis by (simp add: u_def)
qed

section \<open>Facts about the trigger evaluator and the prompt injection\<close>

lemma py_in_sublist: "py_in needle hay \<longleftrightarrow> sublist needle hay"
  by (induction hay) (auto simp: sublist_Cons_right)

lemma match_keywords_find:
  "match_keywords lower kws cleaned =
     (case find (\<lambda>k. sublist (lower k) (lower cleaned)) kws of
        Some k \<Rightarrow> (True, MatchedKeyword k)
      | None \<Rightarrow> (False, NoKeywordMatched))"
  by (induction kws) (auto simp: py_in_sublist)




lemma should_trigger_passed:
  assumes "is_loaded" "enabled cfg" "is_at_or_wake_command ev"
    and "check_user_permission (if sender_id ev \<noteq> [] then sender_id ev else user_id ev) cfg"
  shows "should_trigger isspace lower is_loaded cfg ev =
     (if py_strip isspace (message_str ev) = [] then (False, EmptyMessage)
      else match_keywords lower (trigger_keywords cfg)
             (clean_message_content isspace (py_strip isspace (message_str ev))))"
  using assms by (simp add: should_trigger_def Let_def)

lemmas trigger_eval =
  should_trigger_def check_user_permission_def clean_message_content_def py_strip_def
  ascii_isspace_def ascii_lower_def u_def Let_def

lemma split_at_first:
  assumes "x \<notin> set p1" "x \<notin> set p2" "p1 @ x # s1 = p2 @ x # s2"
  shows "p1 = p2 \<and> s1 = s2"
  using assms
proof (induction p1 arbitrary: p2)
  case Nil
  then show ?case by (cases p2) auto
next
  case (Cons a p1)
  then show ?case by (cases p2) auto
qed












section \<open>Properties of the trigger evaluator\<close>



text \<open>
  C7, as stated, fails. The message \<open>@bot\<close> becomes empty once the mention is removed,
  yet \<open>should_trigger\<close> does not answer with the empty-message reason: the emptiness test
  has already been passed on the uncleaned text, and the call ends in the keyword loop
  with the reason that no keyword matched.
\<close>

theorem mention_only_message_counterexample:
  "clean_message_content ascii_isspace (py_strip ascii_isspace (u ''@bot'')) = []
   \<and> should_trigger ascii_isspace ascii_lower True
     \<lparr>enabled = True, trigger_keywords = [u ''td'', u ''control''],
      interactive_item_name = u ''Widget'', state_duration_seconds = 180,
      sensitivity_level = 75, cooldown_seconds = 30, authorized_users = [],
      admin_only_mode = False, system_prompt_template = u ''{item_name}''\<rparr>
     \<lparr>is_at_or_wake_command = True, sender_id = u ''42'', user_id = [],
      message_str = u ''@bot'', unified_msg_origin = u ''s1'',
      get_platform_name = u ''qq''\<rparr>
   = (False, NoKeywordMatched)
   \<and> (False, NoKeywordMatched) \<noteq> (False, EmptyMessage)"
  by (simp add: trigger_eval)

text \<open>
  C7, amended. The emptiness check is made on the message text stripped of surrounding
  whitespace, before the mention markup is removed: once the first three checks have
  passed, a message that is empty or blank is rejected with the empty-message reason
  before any keyword is looked at; every other message goes on to keyword matching on
  its cleaned text, and when that cleaned text is empty and no keyword is empty, it is
  rejected with the reason that no keyword matched.
\<close>

theorem empty_check_before_cleaning:
  assumes "is_loaded" "enabled cfg" "is_at_or_wake_command ev"
    and "check_user_permission (if sender_id ev \<noteq> [] then sender_id ev else user_id ev) cfg"
  shows "(py_strip isspace (message_str ev) = [] \<longrightarrow>
            should_trigger isspace lower is_loaded cfg ev = (False, EmptyMessage))
       \<and> (py_strip isspace (message_str ev) \<noteq> [] \<longrightarrow>
            should_trigger isspace lower is_loaded cfg ev =
              match_keywords lower (trigger_keywords cfg)
                (clean_message_content isspace (py_strip isspace (message_str ev))))
       \<and> (py_strip isspace (message_str ev) \<noteq> []
            \<and> clean_message_content isspace (py_strip isspace (message_str ev)) = []
            \<and> lower [] = [] \<and> (\<forall>k \<in> set (trigger_keywords cfg). lower k \<noteq> []) \<longrightarrow>
            should_trigger isspace lower is_loaded cfg ev = (False, NoKeywordMatched))"
proof -
  have m: "match_keywords lower kws [] = (False, NoKeywordMatched)"
    if "lower [] = []" "\<forall>k \<in> set kws. lower k \<noteq> []" for kws
    using that by (induction kws) auto
  show ?thesis
    using should_trigger_passed[OF assms, of isspace lower] m[of "trigger_keywords cfg"]
    by auto
qed

theorem empty_check_before_cleaning_witness:
  "should_trigger ascii_isspace ascii_lower True
     \<lparr>enabled = True, trigger_keywords = [u ''td'', u ''control''],
      interactive_item_name = u ''Widget'', state_duration_seconds = 180,
      sensitivity_level = 75, cooldown_seconds = 30, authorized_users = [],
      admin_only_mode = False, system_prompt_template = u ''{item_name}''\<rparr>
     \<lparr>is_at_or_wake_command = True, sender_id = u ''42'', user_id = [],
      message_str = u ''  '', unified_msg_origin = u ''s1'',
      get_platform_name = u ''qq''\<rparr>
   = (False, EmptyMessage)
   \<and> should_trigger ascii_isspace ascii_lower True
     \<lparr>enabled = True, trigger_keywords = [u ''td'', u ''control''],
      interactive_item_name = u ''Widget'', state_duration_seconds = 180,
      sensitivity_level = 75, cooldown_seconds = 30, authorized_users = [],
      admin_only_mode = False, system_prompt_template = u ''{item_name}''\<rparr>
     \<lparr>is_at_or_wake_command = True, sender_id = u ''42'', user_id = [],
      message_str = u ''@bot'', unified_msg_origin = u ''s1'',
      get_platform_name = u ''qq''\<rparr>
   = (False, NoKeywordMatched)"
proof -
  let ?cfg = "\<lparr>enabled = True, trigger_keywords = [u ''td'', u ''control''],
      interactive_item_name = u ''Widget'', state_duration_seconds = 180,
      sensitivity_level = 75, cooldown_seconds = 30, authorized_users = [],
      admin_only_mode = False, system_prompt_template = u ''{item_name}''\<rparr>"
  let ?ev1 = "\<lparr>is_at_or_wake_command = True, sender_id = u ''42'', user_id = [],
      message_str = u ''  '', unified_msg_origin = u ''s1'',
      get_platform_name = u ''qq''\<rparr>"
  let ?ev2 = "\<lparr>is_at_or_wake_command = True, sender_id = u ''42'', user_id = [],
      message_str = u ''@bot'', unified_msg_origin = u ''s1'',
      get_platform_name = u ''qq''\<rparr>"
  have a1: "enabled ?cfg" "is_at_or_wake_command ?ev1"
    "check_user_permission (if sender_id ?ev1 \<noteq> [] then sender_id ?ev1 else user_id ?ev1) ?cfg"
    by (simp_all add: trigger_eval)
  have a2: "enabled ?cfg" "is_at_or_wake_command ?ev2"
    "check_user_permission (if sender_id ?ev2 \<noteq> [] then sender_id ?ev2 else user_id ?ev2) ?cfg"
    by (simp_all add: trigger_eval)
  have e1: "py_strip ascii_isspace (message_str ?ev1) = []"
    by (simp add: trigger_eval)
  have e2: "py_strip ascii_isspace (message_str ?ev2) \<noteq> []
     \<and> clean_message_content ascii_isspace (py_strip ascii_isspace (message_str ?ev2)) = []
     \<and> ascii_lower [] = [] \<and> (\<forall>k \<in> set (trigger_keywords ?cfg). ascii_lower k \<noteq> [])"
    by (simp add: trigger_eval)
  show ?thesis
    using empty_check_before_cleaning[OF TrueI a1, of ascii_isspace ascii_lower]
      empty_check_before_cleaning[OF TrueI a2, of ascii_isspace ascii_lower] e1 e2
    by blast
qed

section \<open>Properties of the state key\<close>

text \<open>
  C8, as stated, fails. The key is the plain concatenation with an underscore, so two
  distinct pairs of platform and session give the same key when the underscore moves
  from one component to the other.
\<close>

theorem state_key_collision_counterexample:
  "(u ''qq'', u ''official_1'') \<noteq> (u ''qq_official'', u ''1'')
   \<and> generate_state_key (u ''official_1'') (u ''qq'')
       = generate_state_key (u ''1'') (u ''qq_official'')"
  by (simp add: generate_state_key_def u_def)

text \<open>
  C8, amended. On pairs whose platform identifiers contain no underscore and are both
  empty or both non-empty, the derivation of the key is injective: distinct pairs of
  platform and session give distinct keys.
\<close>

theorem state_key_injective_on_plain_platforms:
  assumes "of_char CHR ''_'' \<notin> set platform1" "of_char CHR ''_'' \<notin> set platform2"
    and "platform1 = [] \<longleftrightarrow> platform2 = []"
    and "(platform1, session1) \<noteq> (platform2, session2)"
  shows "generate_state_key session1 platform1 \<noteq> generate_state_key session2 platform2"
proof (cases "platform1 = []")
  case True
  then show ?thesis using assms by (simp add: generate_state_key_def)
next
  case False
  then have ne: "platform2 \<noteq> []" using assms(3) by simp
  show ?thesis
  proof
    assume "generate_state_key session1 platform1 = generate_state_key session2 platform2"
    then have "platform1 @ of_char CHR ''_'' # session1 = platform2 @ of_char CHR ''_'' # session2"
      using False ne by (simp add: generate_state_key_def u_def)
    from split_at_first[OF assms(1,2) this] show False using assms(4) by simp
  qed
qed

theorem state_key_injective_on_plain_platforms_witness:
  "generate_state_key (u ''official_1'') (u ''qq'') \<noteq> generate_state_key (u ''1'') (u ''qqofficial'')"
proof -
  have a: "of_char CHR ''_'' \<notin> set (u ''qq'')" "of_char CHR ''_'' \<notin> set (u ''qqofficial'')"
    "u ''qq'' = [] \<longleftrightarrow> u ''qqofficial'' = []"
    "(u ''qq'', u ''official_1'') \<noteq> (u ''qqofficial'', u ''1'')"
    by (simp_all add: u_def)
  from state_key_injective_on_plain_platforms[OF a] show ?thesis .
qed

section \<open>Properties of the prompt injection\<close>




end
